theory Spec2Isabelle
  imports Main "HOL-Library.Sublist"
begin

section \<open>Python values, exceptions and slices\<close>

text \<open>
  The exceptions that the modelled functions of \<^verbatim>\<open>extract_features.py\<close> can raise.
  A function that can raise returns \<open>error + 'a\<close>, with \<open>Inl\<close> for the exception.
\<close>

datatype error = IOError | RuntimeError | ValueError | KeyError | IndexError
  | TypeError | AssertionError

text \<open>
  A slice bound of Python, clamped into \<open>0..n\<close>: a negative bound counts from the end.
\<close>

definition py_index :: "int \<Rightarrow> nat \<Rightarrow> nat" where
  "py_index i n = (if i < 0 then nat (max (i + int n) 0) else min (nat i) n)"

text \<open>\<^verbatim>\<open>xs[a:b]\<close>, \<^verbatim>\<open>xs[:b]\<close> and \<^verbatim>\<open>xs[a:]\<close>.\<close>

definition py_slice :: "'a list \<Rightarrow> int \<Rightarrow> int \<Rightarrow> 'a list" where
  "py_slice xs a b =
     (let lo = py_index a (length xs); hi = py_index b (length xs)
      in take (hi - lo) (drop lo xs))"

definition py_slice_to :: "'a list \<Rightarrow> int \<Rightarrow> 'a list" where
  "py_slice_to xs b = py_slice xs 0 b"

definition py_slice_from :: "'a list \<Rightarrow> int \<Rightarrow> 'a list" where
  "py_slice_from xs a = drop (py_index a (length xs)) xs"

text \<open>
  \<^verbatim>\<open>np.concatenate\<close> raises \<^verbatim>\<open>ValueError\<close> on an empty sequence of arrays
  ("need at least one array to concatenate").
\<close>

definition np_concatenate :: "'a list list \<Rightarrow> error + 'a list" where
  "np_concatenate arrays = (case arrays of [] \<Rightarrow> Inl ValueError | _ \<Rightarrow> Inr (concat arrays))"

text \<open>
  The random source. \<^verbatim>\<open>random.sample(range(n), k)\<close> reads and advances the state of
  the generator: a generator is a function from its state, \<open>n\<close> and \<open>k\<close> to the drawn
  indices and the next state. \<^verbatim>\<open>random.sample\<close> raises \<^verbatim>\<open>ValueError\<close> when
  \<open>k\<close> is negative or larger than the population.
\<close>

type_synonym 's rng = "'s \<Rightarrow> nat \<Rightarrow> nat \<Rightarrow> nat list \<times> 's"

definition random_sample :: "'s rng \<Rightarrow> 's \<Rightarrow> nat \<Rightarrow> int \<Rightarrow> (error + nat list) \<times> 's" where
  "random_sample rng s n k =
     (if k < 0 \<or> int n < k then (Inl ValueError, s)
      else (case rng s n (nat k) of (idxs, s') \<Rightarrow> (Inr idxs, s')))"

text \<open>
  The contract of \<^verbatim>\<open>random.sample\<close>: \<open>k\<close> distinct indices below \<open>n\<close>, in any order.
\<close>

definition valid_rng :: "'s rng \<Rightarrow> bool" where
  "valid_rng rng \<longleftrightarrow>
     (\<forall>s n k. k \<le> n \<longrightarrow>
        length (fst (rng s n k)) = k \<and> distinct (fst (rng s n k)) \<and>
        (\<forall>i \<in> set (fst (rng s n k)). i < n))"

text \<open>A concrete generator: the last \<open>k\<close> indices, in descending order.\<close>

definition demo_rng :: "nat rng" where
  "demo_rng s n k = (rev [n - k..<n], Suc s)"

section \<open>The central-signal sampler\<close>

text \<open>
  \<^verbatim>\<open>_get_central_signals(signals_list, rawsignal_num)\<close>. The signal values are only moved,
  never computed with, so their type is left open; \<open>0\<close> is the padding value.
  \<^verbatim>\<open>int((len(signals_list) - 1) / 2)\<close> truncates towards zero, so it is \<open>0\<close> for the empty
  list, as is the truncating subtraction on \<open>nat\<close>.
\<close>

definition get_central_signals ::
  "'s rng \<Rightarrow> 's \<Rightarrow> ('a::zero) list list \<Rightarrow> int \<Rightarrow> (error + 'a list) \<times> 's" where
  "get_central_signals rng s signals_list rawsignal_num =
    (let signal_lens = map length signals_list in
     if int (sum_list signal_lens) < rawsignal_num then
       (case np_concatenate signals_list of
          Inl e \<Rightarrow> (Inl e, s)
        | Inr real_signals \<Rightarrow>
            (Inr (real_signals @
                  replicate (nat (rawsignal_num - int (length real_signals))) 0), s))
     else
       let mid_loc = (length signals_list - 1) div 2 in
       if length signals_list \<le> mid_loc then (Inl IndexError, s)
       else
         let mid_base_len = length (signals_list ! mid_loc) in
         if rawsignal_num \<le> int mid_base_len then
           (let allcentsignals = signals_list ! mid_loc in
            case random_sample rng s (length allcentsignals) rawsignal_num of
              (Inl e, s') \<Rightarrow> (Inl e, s')
            | (Inr idxs, s') \<Rightarrow> (Inr (map (\<lambda>x. allcentsignals ! x) (sort idxs)), s'))
         else
           let left_len = (rawsignal_num - int mid_base_len) div 2;
               right_len = rawsignal_num - left_len
           in
           (case np_concatenate (take mid_loc signals_list) of
              Inl e \<Rightarrow> (Inl e, s)
            | Inr left_signals \<Rightarrow>
           (case np_concatenate (drop mid_loc signals_list) of
              Inl e \<Rightarrow> (Inl e, s)
            | Inr right_signals \<Rightarrow>
               let (left_len, right_len) =
                     (if int (length left_signals) < left_len then
                        (int (length left_signals),
                         right_len + left_len - int (length left_signals))
                      else if int (length right_signals) < right_len then
                        (left_len + right_len - int (length right_signals),
                         int (length right_signals))
                      else (left_len, right_len))
               in
               if right_len + left_len \<noteq> rawsignal_num then (Inl AssertionError, s)
               else if left_len = 0 then (Inr (py_slice_to right_signals right_len), s)
               else (Inr (py_slice_from left_signals (- left_len) @
                          py_slice_to right_signals right_len), s))))"

text \<open>
  The split branch as the specification words it: the budget, the shift of a shortfall,
  the last samples of the left concatenation and the first of the right one.
\<close>

definition spec_split_budget :: "int \<Rightarrow> int \<Rightarrow> int \<Rightarrow> int \<Rightarrow> int \<times> int" where
  "spec_split_budget target_len mid_len avail_left avail_right =
     (let left_len = (target_len - mid_len) div 2;
          right_len = target_len - left_len
      in if avail_left < left_len then (avail_left, right_len + (left_len - avail_left))
         else if avail_right < right_len then (left_len + (right_len - avail_right), avail_right)
         else (left_len, right_len))"

definition spec_central_split :: "'a list list \<Rightarrow> int \<Rightarrow> 'a list" where
  "spec_central_split signal_list target_len =
     (let mid = (length signal_list - 1) div 2;
          left = concat (take mid signal_list);
          right = concat (drop mid signal_list);
          (left_len, right_len) =
             spec_split_budget target_len (int (length (signal_list ! mid)))
               (int (length left)) (int (length right))
      in drop (length left - nat left_len) left @ take (nat right_len) right)"

section \<open>Motif expansion\<close>

text \<open>
  The IUPAC table is a dictionary from a letter to the list of bases it stands for,
  each base a one-letter string. \<^verbatim>\<open>_convert_motif_seq\<close> and \<^verbatim>\<open>_get_motif_seqs\<close>
  take it as a parameter here.
\<close>

type_synonym iupac_table = "char \<Rightarrow> string list option"

text \<open>
  Modelled from the spec: \<^verbatim>\<open>iupac_alphabets\<close> is imported from
  \<^verbatim>\<open>utils.process_utils\<close>, a module that is not among the sources modelled here.
  The specification calls it the IUPAC-ambiguity expansion set of each base; this is
  the standard IUPAC nucleotide code, used for the concrete evaluations only.
\<close>

definition iupac_alphabets :: iupac_table where
  "iupac_alphabets = map_of
     [(CHR ''A'', [''A'']), (CHR ''C'', [''C'']), (CHR ''G'', [''G'']), (CHR ''T'', [''T'']),
      (CHR ''R'', [''A'', ''G'']), (CHR ''M'', [''A'', ''C'']), (CHR ''S'', [''C'', ''G'']),
      (CHR ''Y'', [''C'', ''T'']), (CHR ''K'', [''G'', ''T'']), (CHR ''W'', [''A'', ''T'']),
      (CHR ''B'', [''C'', ''G'', ''T'']), (CHR ''D'', [''A'', ''G'', ''T'']),
      (CHR ''H'', [''A'', ''C'', ''T'']), (CHR ''V'', [''A'', ''C'', ''G'']),
      (CHR ''N'', [''A'', ''C'', ''G'', ''T''])]"

text \<open>
  The first loop of \<^verbatim>\<open>_convert_motif_seq\<close>: \<^verbatim>\<open>outbases.append(iupac_alphabets[bbase])\<close>
  for each letter, \<^verbatim>\<open>KeyError\<close> at the first letter that is not a key.
\<close>

fun lookup_bases :: "iupac_table \<Rightarrow> string \<Rightarrow> error + string list list" where
  "lookup_bases tbl [] = Inr []"
| "lookup_bases tbl (bbase # rest) =
     (case tbl bbase of
        None \<Rightarrow> Inl KeyError
      | Some bases \<Rightarrow>
          (case lookup_bases tbl rest of
             Inl e \<Rightarrow> Inl e
           | Inr outbases \<Rightarrow> Inr (bases # outbases)))"

text \<open>
  \<^verbatim>\<open>recursive_permute\<close>. The recursion is not bounded by the source, so not returning
  is the value \<open>None\<close>. (The interpreter's limit on the recursion depth is a resource
  limit and is not part of the model.) \<^verbatim>\<open>bases_list[1:]\<close> of the empty list is the
  empty list, as is \<open>drop 1 []\<close>.
\<close>

partial_function (option) recursive_permute :: "string list list \<Rightarrow> string list option" where
  "recursive_permute bases_list =
     (if length bases_list = 1 then Some (bases_list ! 0)
      else if length bases_list = 2 then
        Some (concat (map (\<lambda>fbase. map (\<lambda>sbase. fbase @ sbase) (bases_list ! 1))
                        (bases_list ! 0)))
      else
        Option.bind (recursive_permute (drop 1 bases_list))
          (\<lambda>pseqs. recursive_permute [bases_list ! 0, pseqs]))"

definition convert_motif_seq :: "iupac_table \<Rightarrow> string \<Rightarrow> (error + string list) option" where
  "convert_motif_seq tbl ori_seq =
     (case lookup_bases tbl ori_seq of
        Inl e \<Rightarrow> Some (Inl e)
      | Inr outbases \<Rightarrow> map_option Inr (recursive_permute outbases))"

text \<open>\<^verbatim>\<open>motifs.split(',')\<close>: the empty string splits into one empty element.\<close>

fun split_comma :: "string \<Rightarrow> string list" where
  "split_comma [] = [[]]"
| "split_comma (c # cs) =
     (if c = CHR '','' then [] # split_comma cs
      else (case split_comma cs of
              [] \<Rightarrow> [[c]]
            | w # ws \<Rightarrow> (c # w) # ws))"

text \<open>
  The loop of \<^verbatim>\<open>_get_motif_seqs\<close>: \<^verbatim>\<open>motif_seqs += _convert_motif_seq(ori_motif)\<close>,
  one element after the other; an exception or a call that does not return ends it.
\<close>

fun motif_loop ::
  "iupac_table \<Rightarrow> string list \<Rightarrow> string list \<Rightarrow> (error + string list) option" where
  "motif_loop tbl [] motif_seqs = Some (Inr motif_seqs)"
| "motif_loop tbl (ori_motif # rest) motif_seqs =
     (case convert_motif_seq tbl ori_motif of
        None \<Rightarrow> None
      | Some (Inl e) \<Rightarrow> Some (Inl e)
      | Some (Inr seqs) \<Rightarrow> motif_loop tbl rest (motif_seqs @ seqs))"

definition get_motif_seqs :: "iupac_table \<Rightarrow> string \<Rightarrow> (error + string list) option" where
  "get_motif_seqs tbl motifs = motif_loop tbl (split_comma motifs) []"

text \<open>
  The specification's side: joining elements with commas, and the full cartesian
  product of the ambiguity sets of the letters, each choice concatenated to a string.
\<close>

fun join_comma :: "string list \<Rightarrow> string" where
  "join_comma [] = []"
| "join_comma [e] = e"
| "join_comma (e # es) = e @ CHR '','' # join_comma es"

definition spec_expand :: "string list list \<Rightarrow> string list" where
  "spec_expand sets = map concat (product_lists sets)"

section \<open>The batch extractor\<close>

text \<open>
  What the two readers return for one file. \<^verbatim>\<open>_get_label_raw\<close> gives the raw signal and
  the events \<open>(start, length, base)\<close>, or raises. \<^verbatim>\<open>_get_alignment_info_from_fast5\<close>
  gives \<open>(readname, strand, alignstrand, chrom, chrom_start)\<close>, or raises; without an
  alignment all five are the empty string, so \<open>chrom_start\<close> is an integer or, as \<open>None\<close>,
  the empty string.
\<close>

record 'a fast5 =
  label_raw :: "error + ('a list \<times> (int \<times> int \<times> string) list)"
  alignment_info :: "error + (string \<times> string \<times> string \<times> string \<times> int option)"

text \<open>
  The collaborators of \<^verbatim>\<open>_extract_features\<close> that are not modelled bit by bit: the
  floating-point normalisations and statistics, the site finder
  \<^verbatim>\<open>get_refloc_of_methysite_in_motif\<close> of \<^verbatim>\<open>utils.process_utils\<close>, and the random
  source.
\<close>

record ('a, 's) env =
  zscore :: "'a list \<Rightarrow> 'a list"
  mad :: "'a list \<Rightarrow> 'a list"
  np_mean :: "'a list \<Rightarrow> 'a"
  np_std :: "'a list \<Rightarrow> 'a"
  get_refloc_of_methysite_in_motif :: "string \<Rightarrow> string \<Rightarrow> int \<Rightarrow> int list"
  sampler :: "'s rng"

text \<open>The arguments of \<^verbatim>\<open>_extract_features\<close> that do not change over a batch.\<close>

record config =
  normalize_method :: string
  motif_seqs :: "string list"
  methyloc :: int
  chrom2len :: "string \<Rightarrow> int option"
  kmer_len :: int
  raw_signals_len :: int
  methy_label :: string

text \<open>
  One output line, field by field, in the order of the module's header; the fourth
  field holds \<^verbatim>\<open>cpgloc_in_ref\<close> and the second \<^verbatim>\<open>pos\<close>. The text formatting of the
  numbers is not modelled.
\<close>

record 'a feature =
  f_chrom :: string
  f_pos :: int
  f_alignstrand :: string
  f_pos_in_strand :: int
  f_readname :: string
  f_read_strand :: string
  f_k_mer :: string
  f_signal_means :: "'a list"
  f_signal_stds :: "'a list"
  f_signal_lens :: "nat list"
  f_cent_signals :: "'a list"
  f_methy_label :: string

text \<open>\<^verbatim>\<open>_normalize_signals\<close>.\<close>

definition normalize_signals ::
  "('a, 's) env \<Rightarrow> 'a list \<Rightarrow> string \<Rightarrow> error + 'a list" where
  "normalize_signals env signals method =
     (if method = ''zscore'' then Inr (zscore env signals)
      else if method = ''mad'' then Inr (mad env signals)
      else Inl ValueError)"

text \<open>What one read has computed when the loop over its sites starts.\<close>

record 'a read_ctx =
  r_genomeseq :: string
  r_signal_list :: "'a list list"
  r_readname :: string
  r_strand :: string
  r_alignstrand :: string
  r_chrom :: string
  r_chromlen :: int
  r_chrom_start_in_alignstrand :: "int option"
  r_num_bases :: int

text \<open>
  The body of the \<^verbatim>\<open>try\<close> up to the loop over the sites (lines 207 to 229): it
  appends no record and draws no random number.
\<close>

definition read_prelude ::
  "('a, 's) env \<Rightarrow> config \<Rightarrow> 'a fast5 \<Rightarrow> error + ('a read_ctx \<times> int list)" where
  "read_prelude env cfg fast5_fp =
     (case label_raw fast5_fp of
        Inl e \<Rightarrow> Inl e
      | Inr (raw_signal, events) \<Rightarrow>
     (case normalize_signals env raw_signal (normalize_method cfg) of
        Inl e \<Rightarrow> Inl e
      | Inr norm_signals \<Rightarrow>
     (let genomeseq = concat (map (\<lambda>e. snd (snd e)) events);
          signal_list = map (\<lambda>e. py_slice norm_signals (fst e) (fst e + fst (snd e))) events
      in
     (case alignment_info fast5_fp of
        Inl e \<Rightarrow> Inl e
      | Inr (readname, strand, alignstrand, chrom, chrom_start) \<Rightarrow>
     (case chrom2len cfg chrom of
        None \<Rightarrow> Inl KeyError
      | Some chromlen \<Rightarrow>
     (case (if alignstrand = ''+'' then Inr chrom_start
            else (case chrom_start of
                    None \<Rightarrow> Inl TypeError
                  | Some c \<Rightarrow> Inr (Some (chromlen - (c + int (length genomeseq)))))) of
        Inl e \<Rightarrow> Inl e
      | Inr chrom_start_in_alignstrand \<Rightarrow>
     (let cpg_site_locs =
            concat (map (\<lambda>mseq. get_refloc_of_methysite_in_motif env genomeseq mseq
                                   (methyloc cfg))
                      (motif_seqs cfg))
      in
      if kmer_len cfg mod 2 = 0 then Inl ValueError
      else
        Inr (\<lparr>r_genomeseq = genomeseq, r_signal_list = signal_list,
              r_readname = readname, r_strand = strand, r_alignstrand = alignstrand,
              r_chrom = chrom, r_chromlen = chromlen,
              r_chrom_start_in_alignstrand = chrom_start_in_alignstrand,
              r_num_bases = (kmer_len cfg - 1) div 2\<rparr>,
             cpg_site_locs))))))))"

text \<open>
  The body of the loop over the sites (lines 232 to 261), on the records appended so
  far and the state of the random source: the exception raised, if any, with both.
\<close>

definition site_step ::
  "('a::zero, 's) env \<Rightarrow> config \<Rightarrow> 'a read_ctx \<Rightarrow> int \<Rightarrow> 'a feature list \<times> 's \<Rightarrow>
   error option \<times> 'a feature list \<times> 's" where
  "site_step env cfg ctx cpgloc_in_read st =
     (case st of (features_str, s) \<Rightarrow>
      if r_num_bases ctx \<le> cpgloc_in_read \<and>
         cpgloc_in_read < int (length (r_genomeseq ctx)) - r_num_bases ctx
      then
        (case r_chrom_start_in_alignstrand ctx of
           None \<Rightarrow> (Some TypeError, features_str, s)
         | Some start \<Rightarrow>
            let cpgloc_in_ref = cpgloc_in_read + start;
                pos = (if r_alignstrand ctx = ''-'' then r_chromlen ctx - 1 - cpgloc_in_ref
                       else cpgloc_in_ref);
                k_mer = py_slice (r_genomeseq ctx) (cpgloc_in_read - r_num_bases ctx)
                          (cpgloc_in_read + r_num_bases ctx + 1);
                k_signals = py_slice (r_signal_list ctx) (cpgloc_in_read - r_num_bases ctx)
                              (cpgloc_in_read + r_num_bases ctx + 1);
                signal_lens = map length k_signals;
                signal_means = map (np_mean env) k_signals;
                signal_stds = map (np_std env) k_signals
            in
            (case get_central_signals (sampler env) s k_signals (raw_signals_len cfg) of
               (Inl e, s') \<Rightarrow> (Some e, features_str, s')
             | (Inr cent_signals, s') \<Rightarrow>
                 (None,
                  features_str @
                    [\<lparr>f_chrom = r_chrom ctx, f_pos = pos, f_alignstrand = r_alignstrand ctx,
                      f_pos_in_strand = cpgloc_in_ref, f_readname = r_readname ctx,
                      f_read_strand = r_strand ctx, f_k_mer = k_mer,
                      f_signal_means = signal_means, f_signal_stds = signal_stds,
                      f_signal_lens = signal_lens, f_cent_signals = cent_signals,
                      f_methy_label = methy_label cfg\<rparr>],
                  s')))
      else (None, features_str, s))"

fun site_loop ::
  "('a::zero, 's) env \<Rightarrow> config \<Rightarrow> 'a read_ctx \<Rightarrow> int list \<Rightarrow> 'a feature list \<times> 's \<Rightarrow>
   error option \<times> 'a feature list \<times> 's" where
  "site_loop env cfg ctx [] st = (None, st)"
| "site_loop env cfg ctx (cpgloc_in_read # rest) st =
     (case site_step env cfg ctx cpgloc_in_read st of
        (Some e, st') \<Rightarrow> (Some e, st')
      | (None, st') \<Rightarrow> site_loop env cfg ctx rest st')"

text \<open>The body of the \<^verbatim>\<open>try\<close> for one file.\<close>

definition process_read ::
  "('a::zero, 's) env \<Rightarrow> config \<Rightarrow> 'a fast5 \<Rightarrow> 'a feature list \<times> 's \<Rightarrow>
   error option \<times> 'a feature list \<times> 's" where
  "process_read env cfg fast5_fp st =
     (case read_prelude env cfg fast5_fp of
        Inl e \<Rightarrow> (Some e, st)
      | Inr (ctx, cpg_site_locs) \<Rightarrow> site_loop env cfg ctx cpg_site_locs st)"

text \<open>
  The loop over the files with its \<^verbatim>\<open>except Exception: error += 1; continue\<close>, and
  \<^verbatim>\<open>_extract_features\<close>: the records, the error count, the two numbers of the printed
  line \<^verbatim>\<open>extracted success X of Y\<close>, and the state of the random source.
\<close>

fun extract_loop ::
  "('a::zero, 's) env \<Rightarrow> config \<Rightarrow> 'a fast5 list \<Rightarrow> 'a feature list \<times> nat \<times> 's \<Rightarrow>
   'a feature list \<times> nat \<times> 's" where
  "extract_loop env cfg [] acc = acc"
| "extract_loop env cfg (fast5_fp # rest) (features_str, error, s) =
     (case process_read env cfg fast5_fp (features_str, s) of
        (Some e, features_str', s') \<Rightarrow> extract_loop env cfg rest (features_str', error + 1, s')
      | (None, features_str', s') \<Rightarrow> extract_loop env cfg rest (features_str', error, s'))"

definition extract_features ::
  "('a::zero, 's) env \<Rightarrow> config \<Rightarrow> 'a fast5 list \<Rightarrow> 's \<Rightarrow>
   ('a feature list \<times> nat) \<times> (int \<times> int) \<times> 's" where
  "extract_features env cfg fast5s s =
     (case extract_loop env cfg fast5s ([], 0, s) of
        (features_str, error, s') \<Rightarrow>
          ((features_str, error),
           (int (length fast5s) - int error, int (length fast5s)), s'))"

text \<open>
  Modelled from the spec: \<^verbatim>\<open>get_refloc_of_methysite_in_motif\<close> is imported from
  \<^verbatim>\<open>utils.process_utils\<close>, a module that is not among the sources modelled here. The
  specification's \<^verbatim>\<open>find_sites\<close>: every start offset at which the motif occurs as a
  literal substring of the genome sequence, each moved by the target offset. It is
  used for the concrete evaluations only; the extractor takes the site finder as a
  parameter.
\<close>

definition spec_find_sites :: "string \<Rightarrow> string \<Rightarrow> int \<Rightarrow> int list" where
  "spec_find_sites genome_sequence motif target_offset =
     map (\<lambda>i. int i + target_offset)
       (filter (\<lambda>i. take (length motif) (drop i genome_sequence) = motif)
          [0..<length genome_sequence - length motif + 1])"



text \<open>
  A concrete batch for evaluation: integer signals, the normalisations and statistics
  replaced by stand-ins, the read of the specification's scenario (genome sequence
  \<open>AACGT\<close>, two samples per base) aligned to the reverse strand, and an unreadable file.
\<close>

definition demo_env :: "(int, nat) env" where
  "demo_env = \<lparr>zscore = (\<lambda>xs. xs), mad = (\<lambda>xs. xs), np_mean = (\<lambda>xs. 0), np_std = (\<lambda>xs. 0),
                get_refloc_of_methysite_in_motif = spec_find_sites, sampler = demo_rng\<rparr>"

definition demo_cfg :: config where
  "demo_cfg = \<lparr>normalize_method = ''mad'', motif_seqs = [''CG''], methyloc = 0,
                chrom2len = [''chr1'' \<mapsto> 1000], kmer_len = 3, raw_signals_len = 4,
                methy_label = ''1''\<rparr>"

definition demo_read :: "int fast5" where
  "demo_read = \<lparr>label_raw = Inr ([1, 2, 3, 4, 5, 6, 7, 8, 9, 10],
                   [(0, 2, ''A''), (2, 2, ''A''), (4, 2, ''C''), (6, 2, ''G''), (8, 2, ''T'')]),
                 alignment_info = Inr (''read1'', ''t'', ''-'', ''chr1'', Some 100)\<rparr>"

definition demo_corrupt :: "int fast5" where
  "demo_corrupt = \<lparr>label_raw = Inl IOError, alignment_info = Inr ([], [], [], [], None)\<rparr>"

definition demo_ctx :: "int read_ctx" where
  "demo_ctx = \<lparr>r_genomeseq = ''AACGT'',
                r_signal_list = [[1, 2], [3, 4], [5, 6], [7, 8], [9, 10]],
                r_readname = ''read1'', r_strand = ''t'', r_alignstrand = ''-'',
                r_chrom = ''chr1'', r_chromlen = 1000,
                r_chrom_start_in_alignstrand = Some 895, r_num_bases = 1\<rparr>"

definition demo_feature :: "int feature" where
  "demo_feature = \<lparr>f_chrom = ''chr1'', f_pos = 102, f_alignstrand = ''-'',
                    f_pos_in_strand = 897, f_readname = ''read1'', f_read_strand = ''t'',
                    f_k_mer = ''ACG'', f_signal_means = [0, 0, 0], f_signal_stds = [0, 0, 0],
                    f_signal_lens = [2, 2, 2], f_cent_signals = [4, 5, 6, 7],
                    f_methy_label = ''1''\<rparr>"

section \<open>Properties of the central-signal sampler\<close>

lemma np_concatenate_nonempty: "arrays \<noteq> [] \<Longrightarrow> np_concatenate arrays = Inr (concat arrays)"
  by (cases arrays) (simp_all add: np_concatenate_def)

lemma np_concatenate_empty: "np_concatenate [] = Inl ValueError"
  by (simp add: np_concatenate_def)

lemma py_slice_to_take: "0 \<le> b \<Longrightarrow> py_slice_to xs b = take (nat b) xs"
  by (simp add: py_slice_to_def py_slice_def py_index_def Let_def min_def)

lemma py_slice_from_last: "a < 0 \<Longrightarrow> py_slice_from xs a = drop (length xs - nat (- a)) xs"
  by (auto simp add: py_slice_from_def py_index_def max_def intro: arg_cong[where f="\<lambda>n. drop n xs"])

lemma length_concat_sum: "length (concat xs) = sum_list (map length xs)"
  by (induction xs) simp_all

lemma sum_take_drop:
  "sum_list (map length xs) = length (concat (take m xs)) + length (concat (drop m xs))"
proof -
  have "concat xs = concat (take m xs) @ concat (drop m xs)"
    by (metis append_take_drop_id concat_append)
  then show ?thesis
    by (metis length_append length_concat_sum)
qed

lemma mid_le_right:
  assumes "m < length xs"
  shows "length (xs ! m) \<le> length (concat (drop m xs))"
proof -
  have "drop m xs = xs ! m # drop (Suc m) xs"
    using assms by (simp add: Cons_nth_drop_Suc)
  then show ?thesis by simp
qed

lemma split_branch:
  fixes signals_list :: "('a::zero) list list"
  assumes len: "3 \<le> length signals_list"
    and tot: "rawsignal_num \<le> int (sum_list (map length signals_list))"
    and mid: "int (length (signals_list ! ((length signals_list - 1) div 2))) < rawsignal_num"
  shows "get_central_signals rng s signals_list rawsignal_num =
           (Inr (spec_central_split signals_list rawsignal_num), s)"
proof -
  define m where "m = (length signals_list - 1) div 2"
  define left where "left = concat (take m signals_list)"
  define right where "right = concat (drop m signals_list)"
  have m1: "1 \<le> m" and m2: "m < length signals_list"
    using len by (auto simp: m_def)
  have tk: "take m signals_list \<noteq> []" and dr: "drop m signals_list \<noteq> []"
    using m1 m2 by auto
  have cl: "np_concatenate (take m signals_list) = Inr left"
    and cr: "np_concatenate (drop m signals_list) = Inr right"
    using tk dr by (simp_all add: np_concatenate_nonempty left_def right_def)
  have sum: "sum_list (map length signals_list) = length left + length right"
    unfolding left_def right_def by (rule sum_take_drop)
  have midr: "length (signals_list ! m) \<le> length right"
    unfolding right_def using m2 by (rule mid_le_right)
  define L0 where "L0 = (rawsignal_num - int (length (signals_list ! m))) div 2"
  define R0 where "R0 = rawsignal_num - L0"
  have L0: "0 \<le> L0" using mid by (simp add: L0_def m_def)
  have R0: "0 \<le> R0" using mid L0 by (simp add: L0_def R0_def m_def)
  have nb1: "\<not> int (sum_list (map length signals_list)) < rawsignal_num"
    using tot by simp
  have nb2: "\<not> rawsignal_num \<le> int (length (signals_list ! m))"
    using mid by (simp add: m_def)
  have nidx: "\<not> length signals_list \<le> m" using m2 by simp
  have code: "get_central_signals rng s signals_list rawsignal_num =
      (let (left_len, right_len) =
                     (if int (length left) < L0 then
                        (int (length left), R0 + L0 - int (length left))
                      else if int (length right) < R0 then
                        (L0 + R0 - int (length right), int (length right))
                      else (L0, R0))
               in
               if right_len + left_len \<noteq> rawsignal_num then (Inl AssertionError, s)
               else if left_len = 0 then (Inr (py_slice_to right right_len), s)
               else (Inr (py_slice_from left (- left_len) @
                          py_slice_to right right_len), s))"
    unfolding get_central_signals_def Let_def m_def[symmetric]
    by (simp only: nb1 nb2 nidx if_False cl cr sum.case L0_def R0_def)
  have spec: "spec_central_split signals_list rawsignal_num =
      (let (left_len, right_len) =
                     (if int (length left) < L0 then
                        (int (length left), R0 + (L0 - int (length left)))
                      else if int (length right) < R0 then
                        (L0 + (R0 - int (length right)), int (length right))
                      else (L0, R0))
       in drop (length left - nat left_len) left @ take (nat right_len) right)"
    unfolding spec_central_split_def spec_split_budget_def Let_def m_def[symmetric]
      left_def[symmetric] right_def[symmetric] L0_def R0_def
    by (rule refl)
  have RL: "R0 + L0 = rawsignal_num" by (simp add: R0_def)
  consider (a) "int (length left) < L0"
    | (b) "\<not> int (length left) < L0" "int (length right) < R0"
    | (c) "\<not> int (length left) < L0" "\<not> int (length right) < R0"
    by blast
  then show ?thesis
  proof cases
    case a
    then show ?thesis
      using L0 R0 unfolding code spec
      by (simp add: R0_def py_slice_to_take py_slice_from_last)
  next
    case b
    then show ?thesis
      using L0 R0 unfolding code spec
      by (simp add: R0_def py_slice_to_take py_slice_from_last)
  next
    case c
    then show ?thesis
      using L0 R0 unfolding code spec
      by (simp add: R0_def py_slice_to_take py_slice_from_last)
  qed
qed


lemma split_budget_sound:
  assumes "target_len \<le> avail_left + avail_right" "mid_len < target_len"
    "0 \<le> mid_len" "0 \<le> avail_left" "mid_len \<le> avail_right"
    "spec_split_budget target_len mid_len avail_left avail_right = (left_len, right_len)"
  shows "left_len + right_len = target_len \<and> 0 \<le> left_len \<and> left_len \<le> avail_left \<and>
         0 \<le> right_len \<and> right_len \<le> avail_right"
  using assms by (auto simp: spec_split_budget_def Let_def split: if_splits)

lemma length_spec_central_split:
  assumes ne: "signal_list \<noteq> []"
    and tot: "target_len \<le> int (sum_list (map length signal_list))"
    and mid: "int (length (signal_list ! ((length signal_list - 1) div 2))) < target_len"
  shows "int (length (spec_central_split signal_list target_len)) = target_len"
proof -
  define m where "m = (length signal_list - 1) div 2"
  define left where "left = concat (take m signal_list)"
  define right where "right = concat (drop m signal_list)"
  obtain L R where LR: "spec_split_budget target_len (int (length (signal_list ! m)))
      (int (length left)) (int (length right)) = (L, R)"
    by (cases "spec_split_budget target_len (int (length (signal_list ! m)))
      (int (length left)) (int (length right))")
  have m2: "m < length signal_list" using ne by (cases signal_list) (auto simp: m_def)
  have "target_len \<le> int (length left) + int (length right)"
    using tot sum_take_drop[of signal_list m] by (simp add: left_def right_def)
  moreover have "int (length (signal_list ! m)) \<le> int (length right)"
    using mid_le_right[OF m2] by (simp add: right_def)
  ultimately have snd: "L + R = target_len \<and> 0 \<le> L \<and> L \<le> int (length left) \<and>
         0 \<le> R \<and> R \<le> int (length right)"
    using mid LR by (intro split_budget_sound[where mid_len="int (length (signal_list ! m))"])
      (simp_all add: m_def)
  have "spec_central_split signal_list target_len =
          drop (length left - nat L) left @ take (nat R) right"
    unfolding spec_central_split_def Let_def m_def[symmetric] left_def[symmetric]
      right_def[symmetric] LR by simp
  then show ?thesis using snd by auto
qed

lemma pad_branch:
  fixes signals_list :: "('a::zero) list list"
  assumes ne: "signals_list \<noteq> []"
    and tot: "int (sum_list (map length signals_list)) < rawsignal_num"
  shows "get_central_signals rng s signals_list rawsignal_num =
           (Inr (concat signals_list @
                 replicate (nat (rawsignal_num - int (length (concat signals_list)))) 0), s)"
  unfolding get_central_signals_def Let_def
  using tot by (simp add: np_concatenate_nonempty[OF ne])

lemma mid_le_total:
  assumes "m < length xs"
  shows "length (xs ! m) \<le> sum_list (map length xs)"
  using elem_le_sum_list[of m "map length xs"] assms by simp

lemma random_branch:
  fixes signals_list :: "('a::zero) list list"
  assumes ne: "signals_list \<noteq> []"
    and nonneg: "0 \<le> rawsignal_num"
    and mid: "rawsignal_num \<le> int (length (signals_list ! ((length signals_list - 1) div 2)))"
  shows "get_central_signals rng s signals_list rawsignal_num =
           (Inr (map (\<lambda>x. (signals_list ! ((length signals_list - 1) div 2)) ! x)
                   (sort (fst (rng s (length (signals_list ! ((length signals_list - 1) div 2)))
                                 (nat rawsignal_num))))),
            snd (rng s (length (signals_list ! ((length signals_list - 1) div 2)))
                   (nat rawsignal_num)))"
proof -
  define m where "m = (length signals_list - 1) div 2"
  have m2: "m < length signals_list" using ne by (cases signals_list) (auto simp: m_def)
  have nb1: "\<not> int (sum_list (map length signals_list)) < rawsignal_num"
    using mid mid_le_total[OF m2] by (simp add: m_def)
  have nidx: "\<not> length signals_list \<le> m" using m2 by simp
  have rs: "random_sample rng s (length (signals_list ! m)) rawsignal_num =
      (Inr (fst (rng s (length (signals_list ! m)) (nat rawsignal_num))),
       snd (rng s (length (signals_list ! m)) (nat rawsignal_num)))"
    using nonneg mid by (simp add: random_sample_def m_def split: prod.splits)
  show ?thesis
    unfolding get_central_signals_def Let_def m_def[symmetric]
    using nb1 nidx mid rs by (simp add: m_def)
qed

lemma sorted_indices_subseq:
  assumes "sorted idxs" "distinct idxs" "\<forall>i \<in> set idxs. i < length c"
  shows "subseq (map (\<lambda>i. c ! i) idxs) c"
proof -
  have "idxs = filter (\<lambda>i. i \<in> set idxs) [0..<length c]"
    using assms by (intro sorted_distinct_set_unique) (auto intro: sorted_wrt_filter)
  then have "subseq idxs [0..<length c]"
    by (metis subseq_filter_left)
  then have "subseq (map (\<lambda>i. c ! i) idxs) (map (\<lambda>i. c ! i) [0..<length c])"
    by (rule subseq_map)
  then show ?thesis by (simp add: map_nth)
qed

lemma valid_demo_rng: "valid_rng demo_rng"
  by (auto simp: valid_rng_def demo_rng_def)


text \<open>
  C1 (amended). For every non-empty signal list, every non-negative target length and
  every random source that honours the contract of \<^verbatim>\<open>random.sample\<close>, the sampler
  returns a vector, and its length is exactly the target length, whichever of the three
  branches is taken; the one exception is a list of exactly two vectors in the split
  branch (total sample count at least the target, first vector shorter than the target),
  which the hypothesis on two-vector lists leaves out.
\<close>

theorem central_signals_length:
  fixes signals_list :: "('a::zero) list list"
  assumes ne: "signals_list \<noteq> []"
    and two: "length signals_list = 2 \<longrightarrow>
                int (sum_list (map length signals_list)) < rawsignal_num \<or>
                rawsignal_num \<le> int (length (signals_list ! 0))"
    and nonneg: "0 \<le> rawsignal_num"
    and rng: "valid_rng rng"
  shows "\<exists>v s'. get_central_signals rng s signals_list rawsignal_num = (Inr v, s') \<and>
                 int (length v) = rawsignal_num"
proof -
  define m where "m = (length signals_list - 1) div 2"
  define c where "c = signals_list ! m"
  consider (pad) "int (sum_list (map length signals_list)) < rawsignal_num"
    | (rand) "rawsignal_num \<le> int (length c)"
    | (split) "rawsignal_num \<le> int (sum_list (map length signals_list))"
        "int (length c) < rawsignal_num"
    by linarith
  then show ?thesis
  proof cases
    case pad
    then show ?thesis
      using pad_branch[OF ne pad, of rng s] by (simp add: length_concat_sum)
  next
    case rand
    have "nat rawsignal_num \<le> length c" using rand nonneg by simp
    then have "length (fst (rng s (length c) (nat rawsignal_num))) = nat rawsignal_num"
      using rng by (simp add: valid_rng_def)
    then show ?thesis
      using random_branch[OF ne nonneg, of rng s] rand nonneg by (simp add: c_def m_def)
  next
    case split
    have "length signals_list \<noteq> 1"
    proof
      assume "length signals_list = 1"
      then obtain x where "signals_list = [x]"
        by (cases signals_list) simp_all
      then show False using split by (simp add: c_def m_def)
    qed
    moreover have "length signals_list \<noteq> 2"
    proof
      assume l2: "length signals_list = 2"
      then have "m = 0" by (simp add: m_def)
      then have "c = signals_list ! 0" by (simp add: c_def)
      then show False using two l2 split by simp
    qed
    moreover have "length signals_list \<noteq> 0" using ne by simp
    ultimately have len: "3 \<le> length signals_list"
      by arith
    show ?thesis
      using split_branch[OF len split(1), of rng s] length_spec_central_split[OF ne split(1)]
        split(2) by (simp add: c_def m_def)
  qed
qed

theorem central_signals_length_witness:
  "[[1], [2::int]] \<noteq> [] \<and> length [[1], [2::int]] = 2 \<and>
   int (sum_list (map length [[1], [2::int]])) < 5 \<and>
   (0::int) \<le> 5 \<and> valid_rng demo_rng \<and>
   (\<exists>v s'. get_central_signals demo_rng 0 [[1], [2::int]] 5 = (Inr v, s') \<and>
            int (length v) = 5) \<and>
   get_central_signals demo_rng 0 [[1], [2::int]] 5 = (Inr [1, 2, 0, 0, 0], 0)"
proof -
  have h1: "[[1], [2::int]] \<noteq> []" by simp
  have h2: "length [[1], [2::int]] = 2 \<longrightarrow>
      int (sum_list (map length [[1], [2::int]])) < 5 \<or>
      (5::int) \<le> int (length ([[1], [2::int]] ! 0))" by simp
  have h3: "(0::int) \<le> 5" by simp
  have h4: "length [[1], [2::int]] = 2"
    "int (sum_list (map length [[1], [2::int]])) < 5" by simp_all
  have v: "get_central_signals demo_rng 0 [[1], [2::int]] 5 = (Inr [1, 2, 0, 0, 0], 0)"
    by (simp add: get_central_signals_def np_concatenate_def Let_def numeral_eq_Suc)
  note r = central_signals_length[OF h1 h2 h3 valid_demo_rng, of 0]
  show ?thesis
    using h1 h3 h4 valid_demo_rng r v by (intro conjI)
qed

theorem central_signals_two_vectors_counterexample:
  "get_central_signals demo_rng 0 [[1], [2::int]] 2 = (Inl ValueError, 0)"
  by (simp add: get_central_signals_def np_concatenate_def Let_def)

text \<open>
  C3 (amended). In the split branch (total sample count at least the target, central
  vector shorter than the target) on a signal list of at least three vectors, the
  sampler returns what the specification describes: the budget
  \<open>left_len = (target_len - mid_len) div 2\<close>, \<open>right_len = target_len - left_len\<close> around
  the floor-midpoint, a shortfall on one side shifted onto the other, the last
  \<open>left_len\<close> samples of the concatenation before the midpoint followed by the first
  \<open>right_len\<close> samples of the concatenation from the midpoint on. The two budgets sum
  to the target and each fits the samples available on its side.
\<close>

theorem split_branch_spec:
  fixes signals_list :: "('a::zero) list list"
  assumes len: "3 \<le> length signals_list"
    and tot: "rawsignal_num \<le> int (sum_list (map length signals_list))"
    and mid: "int (length (signals_list ! ((length signals_list - 1) div 2))) < rawsignal_num"
  shows "get_central_signals rng s signals_list rawsignal_num =
           (Inr (spec_central_split signals_list rawsignal_num), s) \<and>
         (case spec_split_budget rawsignal_num
                 (int (length (signals_list ! ((length signals_list - 1) div 2))))
                 (int (length (concat (take ((length signals_list - 1) div 2) signals_list))))
                 (int (length (concat (drop ((length signals_list - 1) div 2) signals_list))))
          of (left_len, right_len) \<Rightarrow>
            left_len + right_len = rawsignal_num \<and>
            0 \<le> left_len \<and>
            left_len \<le> int (length (concat (take ((length signals_list - 1) div 2) signals_list))) \<and>
            0 \<le> right_len \<and>
            right_len \<le> int (length (concat (drop ((length signals_list - 1) div 2) signals_list))))"
proof -
  define m where "m = (length signals_list - 1) div 2"
  have m2: "m < length signals_list" using len by (simp add: m_def)
  obtain L R where LR: "spec_split_budget rawsignal_num (int (length (signals_list ! m)))
      (int (length (concat (take m signals_list))))
      (int (length (concat (drop m signals_list)))) = (L, R)"
    by (cases "spec_split_budget rawsignal_num (int (length (signals_list ! m)))
      (int (length (concat (take m signals_list))))
      (int (length (concat (drop m signals_list))))")
  have "rawsignal_num \<le> int (length (concat (take m signals_list))) +
          int (length (concat (drop m signals_list)))"
    using tot sum_take_drop[of signals_list m] by simp
  moreover have "int (length (signals_list ! m)) \<le> int (length (concat (drop m signals_list)))"
    using mid_le_right[OF m2] by simp
  ultimately have "L + R = rawsignal_num \<and> 0 \<le> L \<and>
      L \<le> int (length (concat (take m signals_list))) \<and> 0 \<le> R \<and>
      R \<le> int (length (concat (drop m signals_list)))"
    using mid LR by (intro split_budget_sound[where mid_len="int (length (signals_list ! m))"])
      (simp_all add: m_def)
  then show ?thesis
    using split_branch[OF len tot mid, of rng s] LR by (simp add: m_def)
qed

theorem split_branch_spec_witness:
  "3 \<le> length [[1, 2], [3], [4, 5::int]] \<and>
   (4::int) \<le> int (sum_list (map length [[1, 2], [3], [4, 5::int]])) \<and>
   get_central_signals demo_rng 0 [[1, 2], [3], [4, 5::int]] 4 = (Inr [2, 3, 4, 5], 0)"
  using split_branch_spec[of "[[1, 2], [3], [4, 5::int]]" 4 demo_rng 0]
  by (simp add: spec_central_split_def spec_split_budget_def Let_def)

theorem split_branch_two_vectors_counterexample:
  "fst (get_central_signals demo_rng 0 [[5], [7::int]] 2) = Inl ValueError \<and>
   spec_central_split [[5], [7::int]] 2 = [5, 7]"
  by (simp add: get_central_signals_def np_concatenate_def spec_central_split_def
      spec_split_budget_def Let_def)

text \<open>
  C4. In the random branch (the central vector has at least \<open>target_len\<close> samples, the
  target being non-negative), for every draw of a random source that honours the
  contract of \<^verbatim>\<open>random.sample\<close>, the output reads the central vector at exactly
  \<open>target_len\<close> distinct indices in ascending order: it is an order-preserving
  subsequence of the central vector, drawn without replacement.
\<close>

theorem random_branch_sorted_subsequence:
  fixes signals_list :: "('a::zero) list list"
  assumes ne: "signals_list \<noteq> []"
    and nonneg: "0 \<le> rawsignal_num"
    and mid: "rawsignal_num \<le> int (length (signals_list ! ((length signals_list - 1) div 2)))"
    and rng: "valid_rng rng"
  shows "\<exists>idxs s'.
           get_central_signals rng s signals_list rawsignal_num =
             (Inr (map (\<lambda>i. (signals_list ! ((length signals_list - 1) div 2)) ! i) idxs), s') \<and>
           int (length idxs) = rawsignal_num \<and> distinct idxs \<and> sorted idxs \<and>
           (\<forall>i \<in> set idxs. i < length (signals_list ! ((length signals_list - 1) div 2))) \<and>
           subseq (map (\<lambda>i. (signals_list ! ((length signals_list - 1) div 2)) ! i) idxs)
             (signals_list ! ((length signals_list - 1) div 2))"
proof -
  define c where "c = signals_list ! ((length signals_list - 1) div 2)"
  define draw where "draw = fst (rng s (length c) (nat rawsignal_num))"
  have k: "nat rawsignal_num \<le> length c" using mid nonneg by (simp add: c_def)
  have d: "length draw = nat rawsignal_num" "distinct draw" "\<forall>i \<in> set draw. i < length c"
    using rng k unfolding valid_rng_def draw_def by blast+
  have s1: "int (length (sort draw)) = rawsignal_num" using d(1) nonneg by simp
  have s2: "distinct (sort draw)" "sorted (sort draw)" using d(2) by simp_all
  have s3: "\<forall>i \<in> set (sort draw). i < length c" using d(3) by simp
  have s4: "subseq (map (\<lambda>i. c ! i) (sort draw)) c"
    using s2 s3 by (intro sorted_indices_subseq) simp_all
  have "get_central_signals rng s signals_list rawsignal_num =
          (Inr (map (\<lambda>i. c ! i) (sort draw)), snd (rng s (length c) (nat rawsignal_num)))"
    using random_branch[OF ne nonneg mid, of rng s] by (simp add: c_def draw_def)
  then show ?thesis
    using s1 s2 s3 s4 unfolding c_def by blast
qed

theorem random_branch_sorted_subsequence_witness:
  "[[1], [10, 20, 30, 40], [2::int]] \<noteq> [] \<and> (0::int) \<le> 2 \<and> valid_rng demo_rng \<and>
   (\<exists>idxs s'.
      get_central_signals demo_rng 0 [[1], [10, 20, 30, 40], [2::int]] 2 =
        (Inr (map (\<lambda>i. [10, 20, 30, 40] ! i) idxs), s') \<and>
      int (length idxs) = 2 \<and> distinct idxs \<and> sorted idxs \<and>
      (\<forall>i \<in> set idxs. i < length [10, 20, 30, 40::int]) \<and>
      subseq (map (\<lambda>i. [10, 20, 30, 40] ! i) idxs) [10, 20, 30, 40::int])"
proof -
  have h: "[[1], [10, 20, 30, 40], [2::int]] \<noteq> []" "(0::int) \<le> 2"
    "(2::int) \<le> int (length ([[1], [10, 20, 30, 40], [2::int]] !
        ((length [[1], [10, 20, 30, 40], [2::int]] - 1) div 2)))"
    by simp_all
  have c: "[[1], [10, 20, 30, 40], [2::int]] !
      ((length [[1], [10, 20, 30, 40], [2::int]] - 1) div 2) = [10, 20, 30, 40]"
    by simp
  note r = random_branch_sorted_subsequence[OF h valid_demo_rng, of 0, unfolded c]
  show ?thesis
    using h(1,2) valid_demo_rng r by (intro conjI)
qed

section \<open>Properties of motif expansion\<close>

lemma recursive_permute_one: "recursive_permute [x] = Some x"
  by (subst recursive_permute.simps) simp

lemma recursive_permute_two:
  "recursive_permute [x, y] = Some (concat (map (\<lambda>f. map (\<lambda>s. f @ s) y) x))"
  by (subst recursive_permute.simps) simp

lemma recursive_permute_more:
  "2 \<le> length rest \<Longrightarrow>
   recursive_permute (x # rest) =
     Option.bind (recursive_permute rest) (\<lambda>pseqs. recursive_permute [x, pseqs])"
  by (subst recursive_permute.simps) auto

lemma spec_expand_Cons:
  "spec_expand (x # rest) = concat (map (\<lambda>f. map (\<lambda>s. f @ s) (spec_expand rest)) x)"
  by (simp add: spec_expand_def map_concat comp_def)

lemma recursive_permute_nonempty:
  "bases_list \<noteq> [] \<Longrightarrow> recursive_permute bases_list = Some (spec_expand bases_list)"
proof (induction bases_list)
  case Nil
  then show ?case by simp
next
  case (Cons x rest)
  consider (one) "rest = []" | (two) "length rest = 1" | (more) "2 \<le> length rest"
    by (cases rest) (auto simp: Suc_le_eq)
  then show ?case
  proof cases
    case one
    then show ?thesis by (simp add: recursive_permute_one spec_expand_def comp_def)
  next
    case two
    then obtain y where "rest = [y]" by (cases rest) auto
    then show ?thesis
      by (simp add: recursive_permute_two spec_expand_def comp_def map_concat)
  next
    case more
    then have "rest \<noteq> []" by auto
    with Cons.IH have "recursive_permute rest = Some (spec_expand rest)" by simp
    then show ?thesis
      using more by (simp add: recursive_permute_more recursive_permute_two spec_expand_Cons)
  qed
qed


lemma length_spec_expand: "length (spec_expand sets) = prod_list (map length sets)"
  by (induction sets) (simp_all add: spec_expand_def length_concat comp_def sum_list_triv)


lemma lookup_bases_recognized:
  "\<forall>c \<in> set m. tbl c \<noteq> None \<Longrightarrow> lookup_bases tbl m = Inr (map (\<lambda>c. the (tbl c)) m)"
  by (induction m) auto

lemma convert_motif_seq_nonempty:
  assumes "m \<noteq> []" "\<forall>c \<in> set m. tbl c \<noteq> None"
  shows "convert_motif_seq tbl m = Some (Inr (spec_expand (map (\<lambda>c. the (tbl c)) m)))"
  using assms
  by (simp add: convert_motif_seq_def lookup_bases_recognized recursive_permute_nonempty)


lemma motif_loop_all:
  "\<forall>e \<in> set es. e \<noteq> [] \<and> (\<forall>c \<in> set e. tbl c \<noteq> None) \<Longrightarrow>
   motif_loop tbl es acc =
     Some (Inr (acc @ concat (map (\<lambda>e. spec_expand (map (\<lambda>c. the (tbl c)) e)) es)))"
  by (induction es arbitrary: acc) (simp_all add: convert_motif_seq_nonempty)


lemma spec_expand_singletons:
  "\<forall>s \<in> set sets. \<exists>b. s = [b] \<Longrightarrow> spec_expand sets = [concat (map hd sets)]"
proof (induction sets)
  case Nil
  then show ?case by (simp add: spec_expand_def)
next
  case (Cons s sets)
  then obtain b where "s = [b]" by auto
  with Cons show ?case by (simp add: spec_expand_Cons)
qed

lemma spec_expand_singleton_prefix:
  "\<forall>s \<in> set pre. \<exists>b. s = [b] \<Longrightarrow>
   spec_expand (pre @ rest) = map (\<lambda>s. concat (map hd pre) @ s) (spec_expand rest)"
proof (induction pre)
  case Nil
  then show ?case by simp
next
  case (Cons s pre)
  then obtain b where "s = [b]" by auto
  with Cons show ?case by (simp add: spec_expand_Cons comp_def)
qed

lemma spec_expand_two_base:
  assumes "\<forall>s \<in> set pre. \<exists>b. s = [b]" "\<forall>s \<in> set post. \<exists>b. s = [b]"
  shows "spec_expand (pre @ [a1, a2] # post) =
           [concat (map hd pre) @ a1 @ concat (map hd post),
            concat (map hd pre) @ a2 @ concat (map hd post)]"
  using assms
  by (simp add: spec_expand_singleton_prefix spec_expand_Cons spec_expand_singletons)

lemma split_comma_nonempty: "split_comma s \<noteq> []"
  by (induction s) (auto split: list.splits)

lemma split_comma_no_comma: "e \<in> set (split_comma s) \<Longrightarrow> CHR '','' \<notin> set e"
  by (induction s arbitrary: e) (auto split: list.splits if_splits)


lemma join_split_comma: "join_comma (split_comma s) = s"
proof (induction s)
  case Nil
  then show ?case by simp
next
  case (Cons c cs)
  obtain w ws where sp: "split_comma cs = w # ws"
    using split_comma_nonempty[of cs] by (cases "split_comma cs") auto
  show ?case
  proof (cases "c = CHR '',''")
    case True
    then show ?thesis using Cons sp by simp
  next
    case False
    then show ?thesis using Cons sp by (cases ws) simp_all
  qed
qed

lemma iupac_CG:
  "iupac_alphabets CHR ''C'' = Some [''C'']" "iupac_alphabets CHR ''G'' = Some [''G'']"
  "iupac_alphabets CHR ''R'' = Some [''A'', ''G'']"
  by (simp_all add: iupac_alphabets_def)

text \<open>
  C9. Motif expansion splits the specification on commas (the elements hold no comma
  and joined by commas give the specification back) and expands each element to the
  full cartesian product of the ambiguity sets of its letters: for elements that are
  non-empty and use recognised letters the result is the concatenation of the
  expansions; one element over recognised letters has as many expansions as the product
  of the sizes of its letters' sets; \<open>''CG''\<close> expands to exactly \<open>[''CG'']\<close> when \<open>C\<close>
  and \<open>G\<close> stand for themselves; and a letter standing for two bases among letters
  standing for one base each gives exactly two strings, equal everywhere else.
\<close>

theorem motif_expansion_cartesian:
  "join_comma (split_comma motifs) = motifs \<and>
   (\<forall>e \<in> set (split_comma motifs). CHR '','' \<notin> set e) \<and>
   ((\<forall>e \<in> set (split_comma motifs). e \<noteq> [] \<and> (\<forall>c \<in> set e. tbl c \<noteq> None)) \<longrightarrow>
      get_motif_seqs tbl motifs =
        Some (Inr (concat (map (\<lambda>e. spec_expand (map (\<lambda>c. the (tbl c)) e))
                             (split_comma motifs))))) \<and>
   (m \<noteq> [] \<and> (\<forall>c \<in> set m. tbl c \<noteq> None) \<longrightarrow>
      convert_motif_seq tbl m = Some (Inr (spec_expand (map (\<lambda>c. the (tbl c)) m))) \<and>
      length (spec_expand (map (\<lambda>c. the (tbl c)) m)) =
        prod_list (map (\<lambda>c. length (the (tbl c))) m)) \<and>
   (tbl CHR ''C'' = Some [''C''] \<and> tbl CHR ''G'' = Some [''G''] \<longrightarrow>
      get_motif_seqs tbl ''CG'' = Some (Inr [''CG''])) \<and>
   ((\<forall>c \<in> set pre \<union> set post. \<exists>b. tbl c = Some [b]) \<and> tbl x = Some [a1, a2] \<longrightarrow>
      convert_motif_seq tbl (pre @ x # post) =
        Some (Inr [concat (map (\<lambda>c. hd (the (tbl c))) pre) @ a1 @
                     concat (map (\<lambda>c. hd (the (tbl c))) post),
                   concat (map (\<lambda>c. hd (the (tbl c))) pre) @ a2 @
                     concat (map (\<lambda>c. hd (the (tbl c))) post)]))"
proof (intro conjI impI)
  show "join_comma (split_comma motifs) = motifs" by (rule join_split_comma)
next
  show "\<forall>e \<in> set (split_comma motifs). CHR '','' \<notin> set e"
    using split_comma_no_comma by blast
next
  assume "\<forall>e \<in> set (split_comma motifs). e \<noteq> [] \<and> (\<forall>c \<in> set e. tbl c \<noteq> None)"
  then show "get_motif_seqs tbl motifs =
        Some (Inr (concat (map (\<lambda>e. spec_expand (map (\<lambda>c. the (tbl c)) e))
                             (split_comma motifs))))"
    by (simp add: get_motif_seqs_def motif_loop_all)
next
  assume "m \<noteq> [] \<and> (\<forall>c \<in> set m. tbl c \<noteq> None)"
  then show "convert_motif_seq tbl m = Some (Inr (spec_expand (map (\<lambda>c. the (tbl c)) m)))"
    by (simp add: convert_motif_seq_nonempty)
next
  show "length (spec_expand (map (\<lambda>c. the (tbl c)) m)) =
        prod_list (map (\<lambda>c. length (the (tbl c))) m)"
    by (simp add: length_spec_expand comp_def)
next
  assume "tbl CHR ''C'' = Some [''C''] \<and> tbl CHR ''G'' = Some [''G'']"
  then show "get_motif_seqs tbl ''CG'' = Some (Inr [''CG''])"
    by (simp add: get_motif_seqs_def convert_motif_seq_def recursive_permute_two)
next
  assume h: "(\<forall>c \<in> set pre \<union> set post. \<exists>b. tbl c = Some [b]) \<and> tbl x = Some [a1, a2]"
  then have rec: "\<forall>c \<in> set (pre @ x # post). tbl c \<noteq> None" by auto
  have sets: "map (\<lambda>c. the (tbl c)) (pre @ x # post) =
      map (\<lambda>c. the (tbl c)) pre @ [a1, a2] # map (\<lambda>c. the (tbl c)) post"
    using h by simp
  have s1: "\<forall>s \<in> set (map (\<lambda>c. the (tbl c)) pre). \<exists>b. s = [b]"
    and s2: "\<forall>s \<in> set (map (\<lambda>c. the (tbl c)) post). \<exists>b. s = [b]"
    using h by (auto, (metis Un_iff option.sel)+)
  show "convert_motif_seq tbl (pre @ x # post) =
        Some (Inr [concat (map (\<lambda>c. hd (the (tbl c))) pre) @ a1 @
                     concat (map (\<lambda>c. hd (the (tbl c))) post),
                   concat (map (\<lambda>c. hd (the (tbl c))) pre) @ a2 @
                     concat (map (\<lambda>c. hd (the (tbl c))) post)])"
    using convert_motif_seq_nonempty[OF _ rec] spec_expand_two_base[OF s1 s2, of a1 a2] h
    by (simp add: comp_def)
qed

theorem motif_expansion_cartesian_witness:
  "split_comma ''CG,CRG'' = [''CG'', ''CRG''] \<and>
   iupac_alphabets CHR ''C'' = Some [''C''] \<and> iupac_alphabets CHR ''G'' = Some [''G''] \<and>
   iupac_alphabets CHR ''R'' = Some [''A'', ''G''] \<and>
   get_motif_seqs iupac_alphabets ''CG,CRG'' = Some (Inr [''CG'', ''CAG'', ''CGG'']) \<and>
   convert_motif_seq iupac_alphabets ''CRG'' = Some (Inr [''CAG'', ''CGG'']) \<and>
   get_motif_seqs iupac_alphabets ''CG'' = Some (Inr [''CG''])"
proof -
  have sp: "split_comma ''CG,CRG'' = [''CG'', ''CRG'']" by simp
  note t = motif_expansion_cartesian[where tbl = iupac_alphabets and motifs = "''CG,CRG''"
      and m = "''CRG''" and pre = "''C''" and x = "CHR ''R''" and post = "''G''"
      and ?a1.0 = "''A''" and ?a2.0 = "''G''"]
  have g: "get_motif_seqs iupac_alphabets ''CG,CRG'' = Some (Inr [''CG'', ''CAG'', ''CGG''])"
    using t by (simp add: iupac_CG spec_expand_def)
  have c: "convert_motif_seq iupac_alphabets ''CRG'' = Some (Inr [''CAG'', ''CGG''])"
    using t by (simp add: iupac_CG spec_expand_def)
  have cg: "get_motif_seqs iupac_alphabets ''CG'' = Some (Inr [''CG''])"
    using t by (simp add: iupac_CG)
  show ?thesis using sp iupac_CG g c cg by (intro conjI)
qed




section \<open>Properties of the batch extractor\<close>

lemma site_step_out_of_bounds:
  "\<not> (r_num_bases ctx \<le> cpgloc \<and> cpgloc < int (length (r_genomeseq ctx)) - r_num_bases ctx) \<Longrightarrow>
   site_step env cfg ctx cpgloc (fs, s) = (None, fs, s)"
  by (auto simp: site_step_def)

text \<open>
  What a step of the site loop can do: leave the records as they are, or, at a site
  within the bounds and without an exception, append exactly one record, whose
  fields are these.
\<close>

lemma site_step_cases:
  assumes "site_step env cfg ctx cpgloc (fs, s) = (e, fs', s')"
  shows "fs' = fs \<or>
         (e = None \<and>
          r_num_bases ctx \<le> cpgloc \<and> cpgloc < int (length (r_genomeseq ctx)) - r_num_bases ctx \<and>
          (\<exists>start r. r_chrom_start_in_alignstrand ctx = Some start \<and> fs' = fs @ [r] \<and>
             f_pos_in_strand r = cpgloc + start \<and>
             f_pos r = (if r_alignstrand ctx = ''-'' then r_chromlen ctx - 1 - (cpgloc + start)
                        else cpgloc + start) \<and>
             f_alignstrand r = r_alignstrand ctx \<and> f_chrom r = r_chrom ctx \<and>
             f_k_mer r = py_slice (r_genomeseq ctx) (cpgloc - r_num_bases ctx)
                           (cpgloc + r_num_bases ctx + 1) \<and>
             f_signal_lens r =
               map length (py_slice (r_signal_list ctx) (cpgloc - r_num_bases ctx)
                             (cpgloc + r_num_bases ctx + 1)) \<and>
             fst (get_central_signals (sampler env) s
                    (py_slice (r_signal_list ctx) (cpgloc - r_num_bases ctx)
                       (cpgloc + r_num_bases ctx + 1))
                    (raw_signals_len cfg)) = Inr (f_cent_signals r)))"
  using assms
  by (auto simp: site_step_def Let_def split: if_splits option.splits prod.splits sum.splits)

lemma site_step_error_or_continue:
  assumes "site_step env cfg ctx cpgloc (fs, s) = (Some e, fs', s')"
  shows "fs' = fs"
  using site_step_cases[OF assms] by auto

lemma site_loop_out_of_bounds:
  "\<forall>cpgloc \<in> set sites.
     \<not> (r_num_bases ctx \<le> cpgloc \<and> cpgloc < int (length (r_genomeseq ctx)) - r_num_bases ctx) \<Longrightarrow>
   site_loop env cfg ctx sites (fs, s) = (None, fs, s)"
  by (induction sites) (simp_all add: site_step_out_of_bounds)

text \<open>
  The invariant of the site loop: the records it had are kept, and every record it
  appends comes from a step at one of its sites.
\<close>

lemma site_loop_appends:
  assumes "site_loop env cfg ctx sites (fs, s) = (e, fs', s')"
  shows "\<exists>ext. fs' = fs @ ext \<and>
           (\<forall>r \<in> set ext. \<exists>cpgloc \<in> set sites. \<exists>fs0 s0 s1.
              site_step env cfg ctx cpgloc (fs0, s0) = (None, fs0 @ [r], s1))"
  using assms
proof (induction sites arbitrary: fs s)
  case Nil
  then show ?case by simp
next
  case (Cons cpgloc rest)
  obtain e1 fs1 s1 where st: "site_step env cfg ctx cpgloc (fs, s) = (e1, fs1, s1)"
    by (cases "site_step env cfg ctx cpgloc (fs, s)") auto
  from site_step_cases[OF st]
  have one: "fs1 = fs \<or> (e1 = None \<and> (\<exists>r. fs1 = fs @ [r]))" by auto
  show ?case
  proof (cases e1)
    case (Some err)
    with st Cons.prems have "fs' = fs1" by simp
    moreover have "fs1 = fs"
      using site_step_error_or_continue[of env cfg ctx cpgloc fs s err fs1 s1] st Some by simp
    ultimately show ?thesis by simp
  next
    case None
    with st Cons.prems have loop: "site_loop env cfg ctx rest (fs1, s1) = (e, fs', s')"
      by simp
    from Cons.IH[OF loop] obtain ext where
      ext: "fs' = fs1 @ ext"
        "\<forall>r \<in> set ext. \<exists>cpgloc \<in> set rest. \<exists>fs0 s0 s1.
            site_step env cfg ctx cpgloc (fs0, s0) = (None, fs0 @ [r], s1)"
      by blast
    from one show ?thesis
    proof
      assume "fs1 = fs"
      with ext show ?thesis by auto
    next
      assume "e1 = None \<and> (\<exists>r. fs1 = fs @ [r])"
      then obtain r where r: "fs1 = fs @ [r]" by blast
      have "site_step env cfg ctx cpgloc (fs, s) = (None, fs @ [r], s1)"
        using st None r by simp
      then have "\<forall>r' \<in> set (r # ext). \<exists>cpgloc' \<in> set (cpgloc # rest). \<exists>fs0 s0 s1.
            site_step env cfg ctx cpgloc' (fs0, s0) = (None, fs0 @ [r'], s1)"
        using ext(2) by auto
      moreover have "fs' = fs @ (r # ext)" using ext(1) r by simp
      ultimately show ?thesis by blast
    qed
  qed
qed





lemma read_prelude_num_bases:
  assumes "read_prelude env cfg rd = Inr (ctx, sites)"
  shows "r_num_bases ctx = (kmer_len cfg - 1) div 2" and "kmer_len cfg mod 2 \<noteq> 0"
  using assms
  by (auto simp: read_prelude_def Let_def
      split: sum.splits option.splits if_splits prod.splits)

lemma read_prelude_even_kmer:
  "kmer_len cfg mod 2 = 0 \<Longrightarrow> \<exists>e. read_prelude env cfg rd = Inl e"
  by (auto simp: read_prelude_def Let_def
      split: sum.splits option.splits if_splits prod.splits)

lemma read_prelude_unknown_method:
  "normalize_method cfg \<noteq> ''zscore'' \<Longrightarrow> normalize_method cfg \<noteq> ''mad'' \<Longrightarrow>
   \<exists>e. read_prelude env cfg rd = Inl e"
  by (auto simp: read_prelude_def normalize_signals_def Let_def
      split: sum.splits option.splits if_splits prod.splits)

lemma process_read_emitted:
  assumes pre: "read_prelude env cfg rd = Inr (ctx, sites)"
    and run: "process_read env cfg rd (fs, s) = (e, fs', s')"
    and mem: "r \<in> set (drop (length fs) fs')"
  shows "\<exists>cpgloc \<in> set sites. \<exists>start.
           r_chrom_start_in_alignstrand ctx = Some start \<and>
           r_num_bases ctx \<le> cpgloc \<and> cpgloc < int (length (r_genomeseq ctx)) - r_num_bases ctx \<and>
           f_pos_in_strand r = cpgloc + start \<and>
           f_pos r = (if r_alignstrand ctx = ''-'' then r_chromlen ctx - 1 - (cpgloc + start)
                      else cpgloc + start) \<and>
           f_alignstrand r = r_alignstrand ctx \<and> f_chrom r = r_chrom ctx \<and>
           f_k_mer r = py_slice (r_genomeseq ctx) (cpgloc - r_num_bases ctx)
                         (cpgloc + r_num_bases ctx + 1)"
proof -
  from pre run have "site_loop env cfg ctx sites (fs, s) = (e, fs', s')"
    by (simp add: process_read_def)
  from site_loop_appends[OF this] obtain ext where
    ext: "fs' = fs @ ext"
      "\<forall>r \<in> set ext. \<exists>cpgloc \<in> set sites. \<exists>fs0 s0 s1.
          site_step env cfg ctx cpgloc (fs0, s0) = (None, fs0 @ [r], s1)"
    by blast
  from mem ext(1) have "r \<in> set ext" by simp
  with ext(2) obtain cpgloc fs0 s0 s1 where
    c: "cpgloc \<in> set sites" and
    st: "site_step env cfg ctx cpgloc (fs0, s0) = (None, fs0 @ [r], s1)"
    by blast
  from site_step_cases[OF st] c show ?thesis
    by (intro bexI[where x = cpgloc]) auto
qed


lemma demo_process_read:
  "process_read demo_env demo_cfg demo_read ([], 0) = (None, [demo_feature], 0)"
  by code_simp

lemma demo_batch:
  "extract_features demo_env demo_cfg [demo_corrupt, demo_read] 0 =
     (([demo_feature], 1), (1, 2), 0)"
  by code_simp





lemma extract_loop_all_fail:
  "\<forall>rd \<in> set fast5s. \<exists>e. read_prelude env cfg rd = Inl e \<Longrightarrow>
   extract_loop env cfg fast5s (fs, err, s) = (fs, err + length fast5s, s)"
  by (induction fast5s arbitrary: err) (auto simp: process_read_def)

lemma extract_features_even_kmer:
  "kmer_len cfg mod 2 = 0 \<Longrightarrow>
   extract_features env cfg fast5s s = (([], length fast5s), (0, int (length fast5s)), s)"
  using extract_loop_all_fail[of fast5s env cfg "[]" 0 s] read_prelude_even_kmer[of cfg env]
  by (simp add: extract_features_def)

lemma extract_features_unknown_method:
  "normalize_method cfg \<noteq> ''zscore'' \<Longrightarrow> normalize_method cfg \<noteq> ''mad'' \<Longrightarrow>
   extract_features env cfg fast5s s = (([], length fast5s), (0, int (length fast5s)), s)"
  using extract_loop_all_fail[of fast5s env cfg "[]" 0 s] read_prelude_unknown_method[of cfg env]
  by (simp add: extract_features_def)

text \<open>
  C2. With an even \<open>kmer_len\<close>, or with a normalisation method that is neither
  \<open>zscore\<close> nor \<open>mad\<close>, the extractor does not fail: on the batch of the one readable
  read, from which it extracts a record with \<open>kmer_len = 3\<close> and method \<open>mad\<close>, it
  returns normally with no record and the read counted as failed. The
  \<^verbatim>\<open>ValueError\<close> is raised inside the \<^verbatim>\<open>try\<close> of the loop over the files.
\<close>

theorem even_kmer_len_is_swallowed:
  "extract_features demo_env demo_cfg [demo_read] 0 = (([demo_feature], 0), (1, 1), 0) \<and>
   extract_features demo_env (demo_cfg\<lparr>kmer_len := 4\<rparr>) [demo_read] 0 =
     (([], 1), (0, 1), 0) \<and>
   extract_features demo_env (demo_cfg\<lparr>normalize_method := ''minmax''\<rparr>) [demo_read] 0 =
     (([], 1), (0, 1), 0)"
proof -
  have a: "extract_features demo_env demo_cfg [demo_read] 0 = (([demo_feature], 0), (1, 1), 0)"
    by code_simp
  have b: "extract_features demo_env (demo_cfg\<lparr>kmer_len := 4\<rparr>) [demo_read] 0 =
     (([], 1), (0, 1), 0)"
    using extract_features_even_kmer[of "demo_cfg\<lparr>kmer_len := 4\<rparr>" demo_env "[demo_read]" 0]
    by simp
  have c: "extract_features demo_env (demo_cfg\<lparr>normalize_method := ''minmax''\<rparr>)
             [demo_read] 0 = (([], 1), (0, 1), 0)"
    using extract_features_unknown_method[of "demo_cfg\<lparr>normalize_method := ''minmax''\<rparr>"
        demo_env "[demo_read]" 0]
    by simp
  show ?thesis using a b c by (intro conjI)
qed



text \<open>
  C8. For every read that reaches the loop over its sites, with
  \<open>num_bases = (kmer_len - 1) div 2\<close>: a located offset that fails
  \<open>num_bases \<le> o < len(genome_sequence) - num_bases\<close> makes the step of the loop append
  no record and raise nothing; every record the read emits is the k-mer window of a
  located offset within these bounds; and a read all of whose located offsets fail the
  bounds emits no record, raises nothing and leaves the failure count as it is.
\<close>

theorem site_bounds_skip:
  assumes pre: "read_prelude env cfg rd = Inr (ctx, sites)"
    and raw: "label_raw rd = Inr (raw_signal, events)"
  shows
    "(\<forall>offset.
        \<not> ((kmer_len cfg - 1) div 2 \<le> offset \<and>
           offset < int (length (concat (map (\<lambda>e. snd (snd e)) events))) -
                    (kmer_len cfg - 1) div 2) \<longrightarrow>
        site_step env cfg ctx offset (fs, s) = (None, fs, s)) \<and>
     (\<forall>e fs' s' r.
        process_read env cfg rd (fs, s) = (e, fs', s') \<and> r \<in> set (drop (length fs) fs') \<longrightarrow>
        (\<exists>offset \<in> set sites.
           (kmer_len cfg - 1) div 2 \<le> offset \<and>
           offset < int (length (concat (map (\<lambda>e. snd (snd e)) events))) -
                    (kmer_len cfg - 1) div 2 \<and>
           f_k_mer r =
             py_slice (concat (map (\<lambda>e. snd (snd e)) events))
               (offset - (kmer_len cfg - 1) div 2) (offset + (kmer_len cfg - 1) div 2 + 1))) \<and>
     ((\<forall>offset \<in> set sites.
         \<not> ((kmer_len cfg - 1) div 2 \<le> offset \<and>
            offset < int (length (concat (map (\<lambda>e. snd (snd e)) events))) -
                     (kmer_len cfg - 1) div 2)) \<longrightarrow>
      process_read env cfg rd (fs, s) = (None, fs, s) \<and>
      extract_loop env cfg [rd] (fs, err, s) = (fs, err, s))"
proof -
  have g: "r_genomeseq ctx = concat (map (\<lambda>e. snd (snd e)) events)"
    using pre raw
    by (auto simp: read_prelude_def Let_def
        split: sum.splits option.splits if_splits prod.splits)
  note n = read_prelude_num_bases(1)[OF pre]
  show ?thesis
  proof (intro conjI allI impI)
    fix offset
    assume "\<not> ((kmer_len cfg - 1) div 2 \<le> offset \<and>
           offset < int (length (concat (map (\<lambda>e. snd (snd e)) events))) -
                    (kmer_len cfg - 1) div 2)"
    then show "site_step env cfg ctx offset (fs, s) = (None, fs, s)"
      using site_step_out_of_bounds[of ctx offset env cfg fs s] g n by simp
  next
    fix e fs' s' r
    assume a: "process_read env cfg rd (fs, s) = (e, fs', s') \<and>
               r \<in> set (drop (length fs) fs')"
    from process_read_emitted[OF pre conjunct1[OF a] conjunct2[OF a]]
    show "\<exists>offset \<in> set sites.
           (kmer_len cfg - 1) div 2 \<le> offset \<and>
           offset < int (length (concat (map (\<lambda>e. snd (snd e)) events))) -
                    (kmer_len cfg - 1) div 2 \<and>
           f_k_mer r =
             py_slice (concat (map (\<lambda>e. snd (snd e)) events))
               (offset - (kmer_len cfg - 1) div 2) (offset + (kmer_len cfg - 1) div 2 + 1)"
      using g n by auto
  next
    assume a: "\<forall>offset \<in> set sites.
         \<not> ((kmer_len cfg - 1) div 2 \<le> offset \<and>
            offset < int (length (concat (map (\<lambda>e. snd (snd e)) events))) -
                     (kmer_len cfg - 1) div 2)"
    then have "\<forall>cpgloc \<in> set sites.
       \<not> (r_num_bases ctx \<le> cpgloc \<and> cpgloc < int (length (r_genomeseq ctx)) - r_num_bases ctx)"
      using g n by simp
    from site_loop_out_of_bounds[OF this, of env cfg fs s]
    show p: "process_read env cfg rd (fs, s) = (None, fs, s)"
      using pre by (simp add: process_read_def)
    then show "extract_loop env cfg [rd] (fs, err, s) = (fs, err, s)" by simp
  qed
qed

theorem site_bounds_skip_witness:
  "read_prelude demo_env (demo_cfg\<lparr>motif_seqs := [''AA'']\<rparr>) demo_read = Inr (demo_ctx, [0]) \<and>
   site_step demo_env (demo_cfg\<lparr>motif_seqs := [''AA'']\<rparr>) demo_ctx 0 ([], 0) =
     (None, [], 0) \<and>
   process_read demo_env (demo_cfg\<lparr>motif_seqs := [''AA'']\<rparr>) demo_read ([], 0) =
     (None, [], 0) \<and>
   extract_loop demo_env (demo_cfg\<lparr>motif_seqs := [''AA'']\<rparr>) [demo_read] ([], 0, 0) =
     ([], 0, 0) \<and>
   process_read demo_env demo_cfg demo_read ([], 0) = (None, [demo_feature], 0) \<and>
   f_k_mer demo_feature = ''ACG''"
proof -
  have pre: "read_prelude demo_env (demo_cfg\<lparr>motif_seqs := [''AA'']\<rparr>) demo_read =
      Inr (demo_ctx, [0])"
    by code_simp
  have raw: "label_raw demo_read = Inr ([1, 2, 3, 4, 5, 6, 7, 8, 9, 10],
      [(0, 2, ''A''), (2, 2, ''A''), (4, 2, ''C''), (6, 2, ''G''), (8, 2, ''T'')])"
    by (simp add: demo_read_def)
  note t = site_bounds_skip[OF pre raw, where fs = "[]" and s = 0 and err = 0]
  have k: "kmer_len (demo_cfg\<lparr>motif_seqs := [''AA'']\<rparr>) = 3" by (simp add: demo_cfg_def)
  have s: "site_step demo_env (demo_cfg\<lparr>motif_seqs := [''AA'']\<rparr>) demo_ctx 0 ([], 0) =
     (None, [], 0)"
    using t by (simp add: k)
  have p: "process_read demo_env (demo_cfg\<lparr>motif_seqs := [''AA'']\<rparr>) demo_read ([], 0) =
     (None, [], 0)"
    "extract_loop demo_env (demo_cfg\<lparr>motif_seqs := [''AA'']\<rparr>) [demo_read] ([], 0, 0) =
     ([], 0, 0)"
    using t by (simp_all add: k)
  have f: "f_k_mer demo_feature = ''ACG''" by (simp add: demo_feature_def)
  show ?thesis using pre s p demo_process_read f by (intro conjI)
qed

end
